theory Spec2Isabelle
  imports Main
begin

section \<open>The RIPE feed processor of internal/ipdata/processor.go\<close>

text \<open>
  The development embeds \<^verbatim>\<open>GetIPListForCountry\<close> and \<^verbatim>\<open>downloadAndProcessData\<close> of
  \<^verbatim>\<open>internal/ipdata/processor.go\<close>. Go strings are byte sequences, here \<open>string\<close>.
  The model is sequential: one caller at a time, so the mutex has no counterpart.
\<close>

subsection \<open>What depends on the platform\<close>

text \<open>
  Three things the code relies on are not fixed by the Go source itself; they are
  fields of a \<open>platform\<close>, and every general theorem holds for every platform.
  \<^item> \<open>IntSize\<close>: the width of \<^verbatim>\<open>int\<close> (64 on amd64 and arm64, 32 on arm).
  \<^item> \<open>Log2_inexact\<close>: the value of \<^verbatim>\<open>int(math.Log2(float64(count)))\<close> for every
    count that is not a positive power of two: for a positive count the logarithm is
    rounded floating point, and for a count \<open>\<le> 0\<close> the conversion of \<^verbatim>\<open>-Inf\<close> or
    \<^verbatim>\<open>NaN\<close> to \<^verbatim>\<open>int\<close> is implementation-defined.
  \<^item> \<open>ToUpper_unicode\<close>: \<^verbatim>\<open>strings.ToUpper\<close> on a string with a byte \<open>\<ge> 0x80\<close>, which
    goes through the Unicode tables.
\<close>

record platform =
  IntSize :: nat
  Log2_inexact :: "int \<Rightarrow> int"
  ToUpper_unicode :: "string \<Rightarrow> string"

subsection \<open>Strings\<close>

definition byte :: "char \<Rightarrow> nat" where
  "byte c = of_char c"

text \<open>\<^verbatim>\<open>strings.ToUpper\<close>: the ASCII path maps \<^verbatim>\<open>'a'..'z'\<close> to \<^verbatim>\<open>'A'..'Z'\<close> byte by byte.\<close>

definition upper_byte :: "char \<Rightarrow> char" where
  "upper_byte c = (if 97 \<le> byte c \<and> byte c \<le> 122 then char_of (byte c - 32) else c)"

definition ToUpper :: "platform \<Rightarrow> string \<Rightarrow> string" where
  "ToUpper pf s =
     (if list_all (\<lambda>c. byte c < 128) s then map upper_byte s else ToUpper_unicode pf s)"

text \<open>\<^verbatim>\<open>strings.HasPrefix(line, "#")\<close>.\<close>

definition HasPrefix_hash :: "string \<Rightarrow> bool" where
  "HasPrefix_hash line = (case line of [] \<Rightarrow> False | c # _ \<Rightarrow> c = CHR ''#'')"

text \<open>
  \<^verbatim>\<open>strings.TrimSpace(line) == ""\<close>: every rune of the line is white space
  (\<^verbatim>\<open>unicode.IsSpace\<close>). On the UTF-8 bytes: the six ASCII spaces, U+0085 and U+00A0
  (\<open>C2 85\<close>, \<open>C2 A0\<close>), U+1680 (\<open>E1 9A 80\<close>), U+2000..U+200A, U+2028, U+2029, U+202F
  (\<open>E2 80 xx\<close>), U+205F (\<open>E2 81 9F\<close>) and U+3000 (\<open>E3 80 80\<close>). A byte that starts
  no such encoding decodes to a rune that is not a space.
\<close>

fun all_space :: "nat list \<Rightarrow> bool" where
  "all_space [] = True"
| "all_space (b # bs) =
     (if b = 9 \<or> b = 10 \<or> b = 11 \<or> b = 12 \<or> b = 13 \<or> b = 32 then all_space bs
      else if b = 194 then
        (case bs of b1 # r \<Rightarrow> (b1 = 133 \<or> b1 = 160) \<and> all_space r | _ \<Rightarrow> False)
      else if b = 225 then
        (case bs of b1 # b2 # r \<Rightarrow> b1 = 154 \<and> b2 = 128 \<and> all_space r | _ \<Rightarrow> False)
      else if b = 226 then
        (case bs of b1 # b2 # r \<Rightarrow>
           (b1 = 128 \<and> (128 \<le> b2 \<and> b2 \<le> 138 \<or> b2 = 168 \<or> b2 = 169 \<or> b2 = 175)
            \<or> b1 = 129 \<and> b2 = 159) \<and> all_space r
         | _ \<Rightarrow> False)
      else if b = 227 then
        (case bs of b1 # b2 # r \<Rightarrow> b1 = 128 \<and> b2 = 128 \<and> all_space r | _ \<Rightarrow> False)
      else False)"

definition TrimSpace_empty :: "string \<Rightarrow> bool" where
  "TrimSpace_empty line = all_space (map byte line)"

text \<open>\<^verbatim>\<open>strings.Split(line, "|")\<close>: one field more than there are separators.\<close>

fun Split :: "string \<Rightarrow> string list" where
  "Split [] = [[]]"
| "Split (c # cs) =
     (if c = CHR ''|'' then [] # Split cs
      else (case Split cs of [] \<Rightarrow> [[c]] | p # ps \<Rightarrow> (c # p) # ps))"

text \<open>
  \<^verbatim>\<open>strconv.Atoi\<close>: an optional sign, then at least one decimal digit and nothing else;
  the value must fit \<^verbatim>\<open>int\<close>. Every other string is an error (\<open>None\<close>).
\<close>

definition is_digit :: "char \<Rightarrow> bool" where
  "is_digit c = (48 \<le> byte c \<and> byte c \<le> 57)"

definition digits_value :: "string \<Rightarrow> nat" where
  "digits_value ds = foldl (\<lambda>n c. 10 * n + (byte c - 48)) 0 ds"

definition Atoi :: "platform \<Rightarrow> string \<Rightarrow> int option" where
  "Atoi pf s =
     (let neg = (case s of [] \<Rightarrow> False | c # _ \<Rightarrow> c = CHR ''-'');
          ds = (case s of [] \<Rightarrow> [] | c # r \<Rightarrow> if c = CHR ''-'' \<or> c = CHR ''+'' then r else s)
      in if ds = [] \<or> \<not> list_all is_digit ds then None
         else let v = (if neg then - int (digits_value ds) else int (digits_value ds))
              in if - (2 ^ (IntSize pf - 1)) \<le> v \<and> v < 2 ^ (IntSize pf - 1) then Some v
                 else None)"

text \<open>\<^verbatim>\<open>%d\<close> of \<^verbatim>\<open>fmt.Sprintf\<close> and \<^verbatim>\<open>fmt.Errorf\<close>: decimal, with a minus sign.\<close>

fun dec_nat :: "nat \<Rightarrow> string" where
  "dec_nat n =
     (if n < 10 then [char_of (48 + n)] else dec_nat (n div 10) @ [char_of (48 + n mod 10)])"

declare dec_nat.simps [simp del]

definition dec_int :: "int \<Rightarrow> string" where
  "dec_int i = (if i < 0 then CHR ''-'' # dec_nat (nat (- i)) else dec_nat (nat i))"

subsection \<open>The prefix length\<close>

text \<open>
  \<^verbatim>\<open>mask := 32 - int(math.Log2(float64(count)))\<close>. \<^verbatim>\<open>math.Log2\<close> splits its argument
  with \<^verbatim>\<open>Frexp\<close> and returns the exponent itself, exactly, when the fraction is
  \<open>1/2\<close>, that is for a power of two (which \<^verbatim>\<open>float64\<close> represents exactly); every
  other argument goes through \<^verbatim>\<open>Log(frac)*(1/Ln2) + float64(exp)\<close>, the platform's
  \<open>Log2_inexact\<close>. The subtraction is on \<^verbatim>\<open>int\<close> and wraps.
\<close>

fun ilog2 :: "nat \<Rightarrow> nat" where
  "ilog2 n = (if n < 2 then 0 else Suc (ilog2 (n div 2)))"

declare ilog2.simps [simp del]

definition Log2_int :: "platform \<Rightarrow> int \<Rightarrow> int" where
  "Log2_int pf count =
     (if 0 < count \<and> count = 2 ^ ilog2 (nat count) then int (ilog2 (nat count))
      else Log2_inexact pf count)"

definition wrap_int :: "platform \<Rightarrow> int \<Rightarrow> int" where
  "wrap_int pf i = (i + 2 ^ (IntSize pf - 1)) mod 2 ^ IntSize pf - 2 ^ (IntSize pf - 1)"

definition cidr_mask :: "platform \<Rightarrow> int \<Rightarrow> int" where
  "cidr_mask pf count = wrap_int pf (32 - Log2_int pf count)"

subsection \<open>Reading the body line by line\<close>

text \<open>
  \<^verbatim>\<open>bufio.Scanner\<close> with its default split function \<^verbatim>\<open>ScanLines\<close>: a line ends at
  \<^verbatim>\<open>'\n'\<close>, one trailing \<^verbatim>\<open>'\r'\<close> is dropped, and a last line without a newline is
  returned when it is not empty. The scanner's buffer holds at most
  \<^verbatim>\<open>bufio.MaxScanTokenSize\<close> bytes: when that many bytes have arrived without a
  newline the scan stops with \<^verbatim>\<open>ErrTooLong\<close>. \<open>scan pending rest\<close> returns the lines and
  whether the scan stopped that way.
\<close>

definition MaxScanTokenSize :: nat where
  "MaxScanTokenSize = 65536"

definition dropCR :: "string \<Rightarrow> string" where
  "dropCR l = (if l \<noteq> [] \<and> last l = CHR 0x0D then butlast l else l)"

fun scan :: "string \<Rightarrow> string \<Rightarrow> string list \<times> bool" where
  "scan pending [] = (if pending = [] then [] else [dropCR pending], False)"
| "scan pending (c # cs) =
     (if c = CHR 0x0A then (case scan [] cs of (ls, e) \<Rightarrow> (dropCR pending # ls, e))
      else if MaxScanTokenSize \<le> length pending + 1 then ([], True)
      else scan (pending @ [c]) cs)"

subsection \<open>Errors\<close>

datatype error =
  CreateRequestFailed string
  | DownloadFailed string
  | Non200 int
  | ReadFailed string
  | ProcessFailed error

text \<open>The message of each error, as \<^verbatim>\<open>fmt.Errorf\<close> builds it.\<close>

fun Error :: "error \<Rightarrow> string" where
  "Error (CreateRequestFailed cause) = ''failed to create request: '' @ cause"
| "Error (DownloadFailed cause) = ''failed to download data: '' @ cause"
| "Error (Non200 code) = ''received non-200 response: '' @ dec_int code"
| "Error (ReadFailed cause) = ''error reading response: '' @ cause"
| "Error (ProcessFailed e) = ''failed to download and process data: '' @ Error e"

subsection \<open>The feed parser\<close>

record IPData =
  Country :: string
  IPStart :: string
  Count :: int
  CIDRMask :: int

text \<open>
  One turn of the loop over \<^verbatim>\<open>scanner.Scan()\<close>: \<open>m\<close> is \<^verbatim>\<open>ipDataByCountry\<close> before the
  line, the result is the map after it. Every \<^verbatim>\<open>continue\<close> returns \<open>m\<close>.
\<close>

definition process_line ::
  "platform \<Rightarrow> (string \<rightharpoonup> IPData list) \<Rightarrow> string \<Rightarrow> (string \<rightharpoonup> IPData list)" where
  "process_line pf m line =
     (if HasPrefix_hash line \<or> TrimSpace_empty line then m
      else let parts = Split line in
        if length parts < 6 then m
        else if parts ! 0 = ''ripencc'' \<and> parts ! 2 = ''ipv4'' then
          (let country = ToUpper pf (parts ! 1);
               ipStart = parts ! 3;
               countStr = parts ! 4
           in case Atoi pf countStr of
                None \<Rightarrow> m
              | Some count \<Rightarrow>
                  m(country \<mapsto> (case m country of None \<Rightarrow> [] | Some l \<Rightarrow> l) @
                      [\<lparr>Country = country, IPStart = ipStart, Count = count,
                        CIDRMask = cidr_mask pf count\<rparr>]))
        else m)"

definition process_lines :: "platform \<Rightarrow> string list \<Rightarrow> (string \<rightharpoonup> IPData list)" where
  "process_lines pf ls = foldl (process_line pf) Map.empty ls"

text \<open>\<^verbatim>\<open>fmt.Sprintf("%s/%d", ipData.IPStart, ipData.CIDRMask)\<close> and the conversion loop.\<close>

definition cidr :: "IPData \<Rightarrow> string" where
  "cidr d = IPStart d @ ''/'' @ dec_int (CIDRMask d)"

definition to_cache :: "(string \<rightharpoonup> IPData list) \<Rightarrow> (string \<rightharpoonup> string list)" where
  "to_cache m = (\<lambda>country. map_option (map cidr) (m country))"

subsection \<open>The processor and its surroundings\<close>

text \<open>
  Instants and durations are nanoseconds; the zero \<^verbatim>\<open>time.Time\<close> is \<open>0\<close>.
  \<^verbatim>\<open>time.Since\<close> saturates at the ends of \<^verbatim>\<open>time.Duration\<close> (\<^verbatim>\<open>int64\<close>).
\<close>

record Processor =
  cache :: "string \<rightharpoonup> string list"
  cacheTime :: int
  cacheTTL :: int

definition maxDuration :: int where
  "maxDuration = 2 ^ 63 - 1"

definition minDuration :: int where
  "minDuration = - (2 ^ 63)"

definition Since :: "int \<Rightarrow> int \<Rightarrow> int" where
  "Since now t = max minDuration (min maxDuration (now - t))"

text \<open>
  \<^verbatim>\<open>NewProcessorWithClient\<close>: \<open>parsed\<close> is the result of \<^verbatim>\<open>time.ParseDuration\<close> on the
  configured cache duration, \<open>None\<close> when it fails.
\<close>

definition NewProcessorWithClient :: "int option \<Rightarrow> Processor" where
  "NewProcessorWithClient parsed =
     \<lparr>cache = Map.empty, cacheTime = 0,
      cacheTTL = (case parsed of None \<Rightarrow> 3600 * 1000000000 | Some d \<Rightarrow> d)\<rparr>"

text \<open>
  What one call meets outside the processor: the clock readings at the three places that
  read the clock (\<^verbatim>\<open>time.Since\<close> under the read lock, \<^verbatim>\<open>time.Since\<close> under the write
  lock, \<^verbatim>\<open>time.Now\<close> at the store), the outcome of \<^verbatim>\<open>http.NewRequestWithContext\<close> (the
  message of its error, if any), and what \<^verbatim>\<open>httpClient.Do\<close> returns: an error message or
  a response. A response body delivers \<open>Body\<close> and then ends, with the I/O error
  \<open>BodyErr\<close> if there is one.
\<close>

record response =
  StatusCode :: int
  Body :: string
  BodyErr :: "string option"

record world =
  now_rlock :: int
  now_lock :: int
  now_store :: int
  new_request :: "string option"
  do_result :: "string + response"

text \<open>What a call did outside the processor: calls of \<^verbatim>\<open>Do\<close>, and whether the body was read.\<close>

record effects =
  do_calls :: nat
  body_read :: bool

definition no_effects :: effects where
  "no_effects = \<lparr>do_calls = 0, body_read = False\<rparr>"

text \<open>\<^verbatim>\<open>scanner.Err()\<close> after the loop.\<close>

definition scanner_Err :: "response \<Rightarrow> string option" where
  "scanner_Err resp =
     (if snd (scan [] (Body resp)) then Some ''bufio.Scanner: token too long''
      else BodyErr resp)"

definition downloadAndProcessData ::
  "platform \<Rightarrow> world \<Rightarrow> Processor \<Rightarrow> error option \<times> Processor \<times> effects" where
  "downloadAndProcessData pf w p =
     (if Since (now_lock w) (cacheTime p) < cacheTTL p then (None, p, no_effects)
      else case new_request w of
        Some cause \<Rightarrow> (Some (CreateRequestFailed cause), p, no_effects)
      | None \<Rightarrow>
        (case do_result w of
           Inl cause \<Rightarrow> (Some (DownloadFailed cause), p, \<lparr>do_calls = 1, body_read = False\<rparr>)
         | Inr resp \<Rightarrow>
             if StatusCode resp \<noteq> 200
             then (Some (Non200 (StatusCode resp)), p, \<lparr>do_calls = 1, body_read = False\<rparr>)
             else let ipDataByCountry = process_lines pf (fst (scan [] (Body resp))) in
               (case scanner_Err resp of
                  Some cause \<Rightarrow> (Some (ReadFailed cause), p, \<lparr>do_calls = 1, body_read = True\<rparr>)
                | None \<Rightarrow>
                    (None, p\<lparr>cache := to_cache ipDataByCountry, cacheTime := now_store w\<rparr>,
                     \<lparr>do_calls = 1, body_read = True\<rparr>))))"

definition GetIPListForCountry ::
  "platform \<Rightarrow> world \<Rightarrow> Processor \<Rightarrow> string \<Rightarrow> (error + string list) \<times> Processor \<times> effects" where
  "GetIPListForCountry pf w p countryCode =
     (let cc = ToUpper pf countryCode;
          hit = (if Since (now_rlock w) (cacheTime p) < cacheTTL p then cache p cc else None)
      in case hit of
        Some ipList \<Rightarrow> (Inr ipList, p, no_effects)
      | None \<Rightarrow>
        (case downloadAndProcessData pf w p of
           (Some err, p', fx) \<Rightarrow> (Inl (ProcessFailed err), p', fx)
         | (None, p', fx) \<Rightarrow>
             (Inr (case cache p' cc of Some ipList \<Rightarrow> ipList | None \<Rightarrow> []), p', fx)))"

subsection \<open>A platform to evaluate on\<close>

text \<open>
  A platform with a 64-bit \<^verbatim>\<open>int\<close>, for the examples. It is not the model of a
  machine: its two library fields are simple stand-ins, the floor of the binary
  logarithm (the smallest \<^verbatim>\<open>int\<close> for a count \<open>\<le> 0\<close>) and the identity. They agree with
  Go on linux/amd64 for counts \<open>\<le> 0\<close>, for positive counts below \<open>2^49 - 1\<close> and on ASCII
  strings, and the examples evaluate them nowhere else. No general theorem depends on
  them: each is proved for every platform.
\<close>

definition platform64 :: platform where
  "platform64 =
     \<lparr>IntSize = 64,
      Log2_inexact = (\<lambda>count. if count \<le> 0 then - (2 ^ 63) else int (ilog2 (nat count))),
      ToUpper_unicode = (\<lambda>s. s)\<rparr>"

subsection \<open>The parser, line by line\<close>

text \<open>
  The record the loop body appends for a line, \<open>None\<close> where the body leaves
  \<^verbatim>\<open>ipDataByCountry\<close> as it is: the same tests in the same order as \<open>process_line\<close>,
  without the map.
\<close>

definition accepted_record :: "platform \<Rightarrow> string \<Rightarrow> IPData option" where
  "accepted_record pf line =
     (if HasPrefix_hash line \<or> TrimSpace_empty line then None
      else if length (Split line) < 6 then None
      else if Split line ! 0 = ''ripencc'' \<and> Split line ! 2 = ''ipv4'' then
        (case Atoi pf (Split line ! 4) of
           None \<Rightarrow> None
         | Some count \<Rightarrow>
             Some \<lparr>Country = ToUpper pf (Split line ! 1), IPStart = Split line ! 3,
                   Count = count, CIDRMask = cidr_mask pf count\<rparr>)
      else None)"

text \<open>
  The result of the loop and of the conversion in closed form, used in the proofs: per
  country, the \<open>cidr\<close> strings of the records of that country in the order of the lines.
\<close>

definition lines_byCountry :: "platform \<Rightarrow> string list \<Rightarrow> (string \<rightharpoonup> string list)" where
  "lines_byCountry pf ls country =
     (let rs = filter (\<lambda>d. Country d = country) (List.map_filter (accepted_record pf) ls)
      in if rs = [] then None else Some (map cidr rs))"

subsection \<open>The snapshot in the words of the specification\<close>

text \<open>
  The definitions of this subsection are written from the specification, not from the
  code, and share with the code's model only the library functions (\<open>ToUpper\<close>, \<open>Atoi\<close>,
  \<open>dec_int\<close>, the logarithm). The feed is text, one allocation per line, fields
  separated by \<^verbatim>\<open>|\<close>:
  \<^verbatim>\<open>registry|countryCode|addressFamily|startAddress|count|date|status\<close>.
  \<open>spec_split sep s\<close> cuts \<open>s\<close> at every \<open>sep\<close>; \<open>spec_lines\<close> cuts the body at every
  newline, and the text after the last newline is a line when it is not empty.
\<close>

function spec_split :: "char \<Rightarrow> string \<Rightarrow> string list" where
  "spec_split sep s =
     (case dropWhile (\<lambda>c. c \<noteq> sep) s of
        [] \<Rightarrow> [s]
      | _ # rest \<Rightarrow> takeWhile (\<lambda>c. c \<noteq> sep) s # spec_split sep rest)"
  by pat_completeness auto
termination
proof (relation "measure (\<lambda>(sep, s). length s)")
  show "wf (measure (\<lambda>(sep, s). length s))" by simp
next
  fix sep :: char and s :: string and x rest
  assume "dropWhile (\<lambda>c. c \<noteq> sep) s = x # rest"
  then have "Suc (length rest) \<le> length s"
    using length_dropWhile_le [of "\<lambda>c. c \<noteq> sep" s] by simp
  then show "((sep, rest), (sep, s)) \<in> measure (\<lambda>(sep, s). length s)" by simp
qed

declare spec_split.simps [simp del]

function spec_lines :: "string \<Rightarrow> string list" where
  "spec_lines s =
     (if s = [] then []
      else case dropWhile (\<lambda>c. c \<noteq> CHR 0x0A) s of
             [] \<Rightarrow> [s]
           | _ # rest \<Rightarrow> takeWhile (\<lambda>c. c \<noteq> CHR 0x0A) s # spec_lines rest)"
  by pat_completeness auto
termination
proof (relation "measure length")
  show "wf (measure length)" by simp
next
  fix s :: string and x rest
  assume "dropWhile (\<lambda>c. c \<noteq> CHR 0x0A) s = x # rest"
  then have "Suc (length rest) \<le> length s"
    using length_dropWhile_le [of "\<lambda>c. c \<noteq> CHR 0x0A" s] by simp
  then show "(rest, s) \<in> measure length" by simp
qed

declare spec_lines.simps [simp del]

text \<open>
  The prefix length: 32 minus the truncated binary logarithm of the count, in the
  arithmetic of \<^verbatim>\<open>int\<close>.
\<close>

definition spec_prefixLength :: "platform \<Rightarrow> int \<Rightarrow> int" where
  "spec_prefixLength pf count = wrap_int pf (32 - Log2_int pf count)"

text \<open>
  What a line contributes: nothing when it begins with \<^verbatim>\<open>#\<close>, has fewer than 6 fields
  (an empty or white-space-only line has one), names another registry than \<^verbatim>\<open>ripencc\<close>
  or another family than \<^verbatim>\<open>ipv4\<close>, or has a count that does not parse as an integer
  (claim C4 as amended); otherwise the upper-cased country code and the CIDR string
  \<open>startAddress/prefixLength\<close>.
\<close>

definition spec_entry :: "platform \<Rightarrow> string \<Rightarrow> (string \<times> string) option" where
  "spec_entry pf line =
     (let fs = spec_split CHR ''|'' line in
      if take 1 line = ''#'' \<or> length fs < 6 then None
      else if fs ! 0 \<noteq> ''ripencc'' \<or> fs ! 2 \<noteq> ''ipv4'' then None
      else case Atoi pf (fs ! 4) of
             None \<Rightarrow> None
           | Some count \<Rightarrow>
               Some (ToUpper pf (fs ! 1), fs ! 3 @ ''/'' @ dec_int (spec_prefixLength pf count)))"

text \<open>
  \<open>byCountry\<close>: the mapping from a country code to the sequence of the CIDR strings of
  its lines, in feed order; a country without such a line has no entry.
\<close>

definition spec_byCountry :: "platform \<Rightarrow> string \<Rightarrow> (string \<rightharpoonup> string list)" where
  "spec_byCountry pf body country =
     (let cidrs = map snd (filter (\<lambda>e. fst e = country)
                    (List.map_filter (spec_entry pf) (spec_lines body)))
      in if cidrs = [] then None else Some cidrs)"

text \<open>The body of the response the transport returned.\<close>

definition fetched_body :: "world \<Rightarrow> string" where
  "fetched_body w = (case do_result w of Inl _ \<Rightarrow> [] | Inr resp \<Rightarrow> Body resp)"

subsection \<open>Concrete inputs\<close>

text \<open>The feed line of the end-to-end scenario, and lines that the parser meets.\<close>

definition feed_us :: string where
  "feed_us = ''ripencc|US|ipv4|192.168.0.0|256|20220101|allocated''"

definition feed_apnic :: string where
  "feed_apnic = ''apnic|CN|ipv4|172.16.0.0|4096|20220101|allocated''"

definition feed_notanint :: string where
  "feed_notanint = ''ripencc|DE|ipv4|10.0.0.0|notanint|20220101|allocated''"

definition feed_zero :: string where
  "feed_zero = ''ripencc|DE|ipv4|10.0.0.0|0|20220101|allocated''"

definition feed_negative :: string where
  "feed_negative = ''ripencc|DE|ipv4|10.0.0.0|-256|20220101|allocated''"

text \<open>
  A feed of seven lines: a comment, a line that ends in a carriage return and writes its
  country in lower case, a line of another country, a line of another registry, a line
  with an unparsable count, an empty line, and a second line of the first country.
\<close>

definition feed_mixed :: string where
  "feed_mixed =
     ''# comment'' @ [CHR 0x0A] @
     ''ripencc|de|ipv4|10.0.0.0|65536|20220101|allocated'' @ [CHR 0x0D, CHR 0x0A] @
     ''ripencc|FR|ipv4|192.168.0.0|256|20220101|allocated'' @ [CHR 0x0A] @
     ''apnic|CN|ipv4|172.16.0.0|4096|20220101|allocated'' @ [CHR 0x0A] @
     ''ripencc|DE|ipv4|10.1.0.0|notanint|20220101|allocated'' @ [CHR 0x0A] @
     [CHR 0x0A] @
     ''ripencc|DE|ipv4|172.16.0.0|1|20220101|allocated''"

text \<open>
  A world in which the clock reads \<open>t\<close> at every reading, the request is built, and the
  transport answers \<open>r\<close>; an instant in the year 2025; a response without I/O error.
\<close>

definition world_at :: "int \<Rightarrow> string + response \<Rightarrow> world" where
  "world_at t r =
     \<lparr>now_rlock = t, now_lock = t, now_store = t, new_request = None, do_result = r\<rparr>"

definition year2025 :: int where
  "year2025 = 63870000000 * 1000000000"

definition reply :: "int \<Rightarrow> string \<Rightarrow> string + response" where
  "reply code body = Inr \<lparr>StatusCode = code, Body = body, BodyErr = None\<rparr>"

text \<open>A processor whose cache was filled one second before \<open>year2025\<close>, with a TTL of one hour.\<close>

definition warm_processor :: Processor where
  "warm_processor =
     \<lparr>cache = [''US'' \<mapsto> [''1.1.1.0/24'']], cacheTime = year2025 - 1000000000,
      cacheTTL = 3600 * 1000000000\<rparr>"

text \<open>The same cache with the zero timestamp: a stale snapshot.\<close>

definition stale_processor :: Processor where
  "stale_processor = warm_processor\<lparr>cacheTime := 0\<rparr>"

text \<open>A response with status 200 whose body ends in an I/O error.\<close>

definition read_error_reply :: "string + response" where
  "read_error_reply =
     Inr \<lparr>StatusCode = 200, Body = feed_us, BodyErr = Some ''read error''\<rparr>"

text \<open>A processor with a TTL of zero, as the repository's tests build it.\<close>

definition zero_ttl_processor :: Processor where
  "zero_ttl_processor = \<lparr>cache = Map.empty, cacheTime = 0, cacheTTL = 0\<rparr>"

text \<open>That processor after a refresh at \<open>year2025\<close> that fetched \<open>feed_us\<close>.\<close>

definition zero_ttl_refreshed :: Processor where
  "zero_ttl_refreshed =
     \<lparr>cache = [''US'' \<mapsto> [''192.168.0.0/24'']], cacheTime = year2025, cacheTTL = 0\<rparr>"

text \<open>The snapshot that \<open>feed_mixed\<close> yields.\<close>

definition mixed_cache :: "string \<rightharpoonup> string list" where
  "mixed_cache =
     [''DE'' \<mapsto> [''10.0.0.0/16'', ''172.16.0.0/32''], ''FR'' \<mapsto> [''192.168.0.0/24'']]"

section \<open>Properties\<close>

subsection \<open>Auxiliary facts\<close>

lemma ilog2_power2: "ilog2 (2 ^ k) = k"
proof (induction k)
  case 0
  show ?case by (simp add: ilog2.simps)
next
  case (Suc k)
  have "(2::nat) ^ Suc k div 2 = 2 ^ k" by simp
  moreover have "\<not> (2::nat) ^ Suc k < 2" by simp
  ultimately show ?case using Suc by (subst ilog2.simps) simp
qed

lemma Log2_int_power2: "Log2_int pf (2 ^ k) = int k"
proof -
  have "nat ((2::int) ^ k) = 2 ^ k" by (simp add: nat_power_eq)
  then have "ilog2 (nat ((2::int) ^ k)) = k" by (simp only: ilog2_power2)
  then show ?thesis by (simp add: Log2_int_def)
qed

lemma wrap_int_small:
  assumes "IntSize pf = 32 \<or> IntSize pf = 64" and "0 \<le> i" and "i \<le> 32"
  shows "wrap_int pf i = i"
  using assms by (auto simp: wrap_int_def)

lemma process_line_record:
  "process_line pf m line =
     (case accepted_record pf line of
        None \<Rightarrow> m
      | Some d \<Rightarrow> m(Country d \<mapsto> (case m (Country d) of None \<Rightarrow> [] | Some l \<Rightarrow> l) @ [d]))"
  by (simp add: process_line_def accepted_record_def Let_def split: option.splits)

lemma process_lines_skip:
  assumes "\<And>m. process_line pf m line = m"
  shows "process_lines pf (xs @ line # ys) = process_lines pf (xs @ ys)"
  by (simp add: process_lines_def assms)

text \<open>
  The loop computes, for each country, the accepted records of that country in feed
  order, appended to what the map held before.
\<close>

lemma foldl_process_line:
  "foldl (process_line pf) m ls c =
     (let rs = filter (\<lambda>d. Country d = c) (List.map_filter (accepted_record pf) ls)
      in if rs = [] then m c else Some ((case m c of None \<Rightarrow> [] | Some l \<Rightarrow> l) @ rs))"
proof (induction ls arbitrary: m)
  case Nil
  show ?case by (simp add: List.map_filter_simps)
next
  case (Cons l ls)
  show ?case
  proof (cases "accepted_record pf l")
    case None
    then have step: "process_line pf m l = m"
      by (simp add: process_line_record)
    show ?thesis
      using Cons.IH [of m] None by (simp add: step List.map_filter_simps)
  next
    case (Some d)
    define m' where
      "m' = m(Country d \<mapsto> (case m (Country d) of None \<Rightarrow> [] | Some l \<Rightarrow> l) @ [d])"
    have step: "process_line pf m l = m'"
      using Some by (simp add: process_line_record m'_def)
    have m'c: "m' c =
        (if Country d = c then Some ((case m c of None \<Rightarrow> [] | Some l \<Rightarrow> l) @ [d]) else m c)"
      by (auto simp: m'_def)
    show ?thesis
      using Cons.IH [of m'] Some
      by (simp add: step m'c List.map_filter_simps Let_def)
  qed
qed

lemma to_cache_process_lines: "to_cache (process_lines pf ls) = lines_byCountry pf ls"
  by (rule ext)
    (simp add: to_cache_def process_lines_def foldl_process_line lines_byCountry_def Let_def)

lemma refresh_fresh:
  assumes "Since (now_lock w) (cacheTime p) < cacheTTL p"
  shows "downloadAndProcessData pf w p = (None, p, \<lparr>do_calls = 0, body_read = False\<rparr>)"
  using assms by (simp add: downloadAndProcessData_def no_effects_def)

lemma refresh_error_keeps:
  assumes "downloadAndProcessData pf w p = (Some e, p', fx)"
  shows "p' = p"
  using assms
  by (auto simp: downloadAndProcessData_def Let_def split: if_splits option.splits sum.splits)

lemma lookup_after_refresh:
  assumes "Since (now_rlock w) (cacheTime p) < cacheTTL p \<longrightarrow> cache p (ToUpper pf cc) = None"
  shows "GetIPListForCountry pf w p cc =
           (case downloadAndProcessData pf w p of
              (Some err, p', fx) \<Rightarrow> (Inl (ProcessFailed err), p', fx)
            | (None, p', fx) \<Rightarrow>
                (Inr (case cache p' (ToUpper pf cc) of Some l \<Rightarrow> l | None \<Rightarrow> []), p', fx))"
  using assms by (auto simp: GetIPListForCountry_def Let_def)

text \<open>
  The specification's cutting of a line into fields is the code's; a white-space-only
  line has fewer than 6 fields; a carriage return at the end of a line changes no
  record; the scanner's lines are the specification's, up to that carriage return.
\<close>

lemma spec_split_Nil: "spec_split sep [] = [[]]"
  by (simp add: spec_split.simps)

lemma spec_split_Cons:
  "spec_split sep (c # cs) =
     (if c = sep then [] # spec_split sep cs
      else (case spec_split sep cs of [] \<Rightarrow> [[c]] | p # ps \<Rightarrow> (c # p) # ps))"
proof (cases "c = sep")
  case True
  then show ?thesis by (subst spec_split.simps) simp
next
  case False
  then have dw: "dropWhile (\<lambda>c. c \<noteq> sep) (c # cs) = dropWhile (\<lambda>c. c \<noteq> sep) cs"
    and tw: "takeWhile (\<lambda>c. c \<noteq> sep) (c # cs) = c # takeWhile (\<lambda>c. c \<noteq> sep) cs"
    by simp_all
  show ?thesis
  proof (cases "dropWhile (\<lambda>c. c \<noteq> sep) cs")
    case Nil
    have "spec_split sep cs = [cs]"
      by (subst spec_split.simps) (simp only: Nil list.case)
    moreover have "spec_split sep (c # cs) = [c # cs]"
      by (subst spec_split.simps) (simp only: dw Nil list.case)
    ultimately show ?thesis using False by simp
  next
    case (Cons x rest)
    have "spec_split sep cs = takeWhile (\<lambda>c. c \<noteq> sep) cs # spec_split sep rest"
      by (subst spec_split.simps) (simp only: Cons list.case)
    moreover have "spec_split sep (c # cs) =
        (c # takeWhile (\<lambda>c. c \<noteq> sep) cs) # spec_split sep rest"
      by (subst spec_split.simps) (simp only: dw tw Cons list.case)
    ultimately show ?thesis using False by simp
  qed
qed

lemma spec_split_pipe: "spec_split CHR ''|'' s = Split s"
  by (induction s) (simp_all add: spec_split_Nil spec_split_Cons)


lemma all_space_no_pipe: "all_space bs \<Longrightarrow> 124 \<notin> set bs"
  by (induction bs rule: all_space.induct) (auto split: if_splits list.splits)

lemma Split_no_pipe: "CHR ''|'' \<notin> set s \<Longrightarrow> Split s = [s]"
  by (induction s) auto

lemma blank_few_fields:
  assumes "TrimSpace_empty line"
  shows "length (Split line) < 6"
proof -
  have "124 \<notin> set (map byte line)"
    using assms all_space_no_pipe [of "map byte line"] unfolding TrimSpace_empty_def by blast
  moreover have "byte CHR ''|'' = 124" by (simp add: byte_def)
  ultimately have "CHR ''|'' \<notin> set line" by force
  then show ?thesis by (simp add: Split_no_pipe)
qed

lemma Split_not_Nil: "Split s \<noteq> []"
  by (induction s) (auto split: list.splits)

lemma Split_snoc:
  "c \<noteq> CHR ''|'' \<Longrightarrow> Split (s @ [c]) = butlast (Split s) @ [last (Split s) @ [c]]"
proof (induction s)
  case Nil
  then show ?case by simp
next
  case (Cons a s)
  obtain p ps where ps: "Split s = p # ps"
    using Split_not_Nil [of s] by (cases "Split s") auto
  show ?case
  proof (cases "a = CHR ''|''")
    case True
    then show ?thesis using Cons ps by simp
  next
    case False
    then show ?thesis using Cons ps by (cases ps) auto
  qed
qed

lemma Split_snoc_nth:
  assumes "c \<noteq> CHR ''|''" and "Suc i < length (Split s)"
  shows "Split (s @ [c]) ! i = Split s ! i" and "length (Split (s @ [c])) = length (Split s)"
proof -
  have "i < length (Split s) - 1" using assms(2) by arith
  then show "Split (s @ [c]) ! i = Split s ! i"
    using assms(1) by (simp add: Split_snoc nth_append nth_butlast)
  show "length (Split (s @ [c])) = length (Split s)"
    using assms(1) Split_not_Nil [of s] by (simp add: Split_snoc)
qed

lemma Split_snoc_length:
  assumes "c \<noteq> CHR ''|''"
  shows "length (Split (s @ [c])) = length (Split s)"
  using assms Split_not_Nil [of s] by (simp add: Split_snoc)

lemma accepted_record_no_blank:
  "accepted_record pf line =
     (if HasPrefix_hash line \<or> length (Split line) < 6 then None
      else if Split line ! 0 = ''ripencc'' \<and> Split line ! 2 = ''ipv4'' then
        (case Atoi pf (Split line ! 4) of
           None \<Rightarrow> None
         | Some count \<Rightarrow>
             Some \<lparr>Country = ToUpper pf (Split line ! 1), IPStart = Split line ! 3,
                   Count = count, CIDRMask = cidr_mask pf count\<rparr>)
      else None)"
  using blank_few_fields [of line] by (auto simp: accepted_record_def)

lemma accepted_record_dropCR: "accepted_record pf (dropCR l) = accepted_record pf l"
proof (cases "l \<noteq> [] \<and> last l = CHR 0x0D")
  case False
  then show ?thesis by (auto simp: dropCR_def)
next
  case True
  then obtain s where l: "l = s @ [CHR 0x0D]"
    by (metis append_butlast_last_id)
  have cr: "CHR 0x0D \<noteq> CHR ''|''" by simp
  have len: "length (Split l) = length (Split s)"
    unfolding l by (rule Split_snoc_length [OF cr])
  have hash: "length (Split s) \<ge> 6 \<Longrightarrow> HasPrefix_hash l = HasPrefix_hash s"
    unfolding l by (cases s) (auto simp: HasPrefix_hash_def)
  have nth: "Split l ! i = Split s ! i" if "6 \<le> length (Split s)" and "i < 5" for i
    unfolding l using that by (intro Split_snoc_nth(1) [OF cr]) simp
  have d: "dropCR l = s" by (simp add: dropCR_def l)
  show ?thesis
  proof (cases "6 \<le> length (Split s)")
    case False
    then show ?thesis by (simp add: d accepted_record_no_blank len)
  next
    case True
    have eqs: "Split l ! 0 = Split s ! 0" "Split l ! 1 = Split s ! 1" "Split l ! 2 = Split s ! 2"
      "Split l ! 3 = Split s ! 3" "Split l ! 4 = Split s ! 4"
      using True by (simp_all add: nth)
    have h: "HasPrefix_hash l = HasPrefix_hash s"
      using True by (rule hash)
    show ?thesis
      by (simp only: d accepted_record_no_blank [of pf l] accepted_record_no_blank [of pf s]
          len eqs h)
  qed
qed

lemma spec_lines_no_newline:
  assumes "CHR 0x0A \<notin> set s"
  shows "spec_lines s = (if s = [] then [] else [s])"
proof -
  have dw: "dropWhile (\<lambda>c. c \<noteq> CHR 0x0A) s = []"
    using assms by (auto simp: dropWhile_eq_Nil_conv)
  show ?thesis by (subst spec_lines.simps) (simp only: dw list.case)
qed

lemma spec_lines_newline:
  assumes "CHR 0x0A \<notin> set pending"
  shows "spec_lines (pending @ CHR 0x0A # cs) = pending # spec_lines cs"
proof -
  have "dropWhile (\<lambda>c. c \<noteq> CHR 0x0A) (pending @ CHR 0x0A # cs) = CHR 0x0A # cs"
    using assms by (induction pending) auto
  moreover have "takeWhile (\<lambda>c. c \<noteq> CHR 0x0A) (pending @ CHR 0x0A # cs) = pending"
    using assms by (induction pending) auto
  ultimately show ?thesis by (subst spec_lines.simps) simp
qed

lemma scan_spec_lines:
  assumes "CHR 0x0A \<notin> set pending" and "scan pending s = (ls, False)"
  shows "ls = map dropCR (spec_lines (pending @ s))"
  using assms
proof (induction s arbitrary: pending ls)
  case Nil
  then show ?case by (auto simp: spec_lines_no_newline split: if_splits)
next
  case (Cons c cs)
  show ?case
  proof (cases "c = CHR 0x0A")
    case True
    obtain ls' e where r: "scan [] cs = (ls', e)" by (cases "scan [] cs") auto
    with Cons.prems True have e: "e = False" and ls: "ls = dropCR pending # ls'" by auto
    have "ls' = map dropCR (spec_lines ([] @ cs))"
      using Cons.IH [of "[]" ls'] r e by simp
    then show ?thesis
      using True ls Cons.prems(1) by (simp add: spec_lines_newline)
  next
    case False
    with Cons.prems have "scan (pending @ [c]) cs = (ls, False)"
      by (auto split: if_splits)
    moreover have "CHR 0x0A \<notin> set (pending @ [c])" using False Cons.prems(1) by auto
    ultimately have "ls = map dropCR (spec_lines ((pending @ [c]) @ cs))"
      by (rule Cons.IH [rotated])
    then show ?thesis by simp
  qed
qed

lemma HasPrefix_hash_take: "HasPrefix_hash line = (take 1 line = ''#'')"
  by (cases line) (auto simp: HasPrefix_hash_def)

lemma spec_entry_record:
  "spec_entry pf line = map_option (\<lambda>d. (Country d, cidr d)) (accepted_record pf line)"
  by (auto simp: spec_entry_def accepted_record_no_blank spec_split_pipe HasPrefix_hash_take
      Let_def cidr_def cidr_mask_def spec_prefixLength_def split: option.splits)

lemma map_filter_spec_entry:
  "List.map_filter (spec_entry pf) ls =
     map (\<lambda>d. (Country d, cidr d)) (List.map_filter (accepted_record pf) ls)"
  by (induction ls) (auto simp: List.map_filter_simps spec_entry_record split: option.splits)

lemma map_filter_dropCR:
  "List.map_filter (accepted_record pf) (map dropCR ls) = List.map_filter (accepted_record pf) ls"
  by (induction ls) (auto simp: List.map_filter_simps accepted_record_dropCR split: option.splits)

lemma cidrs_of_country:
  "map snd (filter (\<lambda>e. fst e = c) (map (\<lambda>d. (Country d, cidr d)) rs)) =
     map cidr (filter (\<lambda>d. Country d = c) rs)"
  by (induction rs) simp_all

lemma lines_byCountry_spec:
  "lines_byCountry pf (map dropCR (spec_lines body)) = spec_byCountry pf body"
  by (rule ext)
    (simp add: lines_byCountry_def spec_byCountry_def map_filter_dropCR map_filter_spec_entry
      cidrs_of_country Let_def)

text \<open>Evaluations at the concrete inputs.\<close>

lemma scan_feed_us: "scan [] feed_us = ([feed_us], False)"
  by (simp add: feed_us_def MaxScanTokenSize_def dropCR_def)

lemma Split_feed_us:
  "Split feed_us =
     [''ripencc'', ''US'', ''ipv4'', ''192.168.0.0'', ''256'', ''20220101'', ''allocated'']"
  by (simp add: feed_us_def)

lemma Atoi_256:
  assumes "IntSize pf = 32 \<or> IntSize pf = 64"
  shows "Atoi pf ''256'' = Some 256"
  using assms by (auto simp: Atoi_def is_digit_def digits_value_def byte_def)

lemma ToUpper_us: "ToUpper pf ''us'' = ''US''"
  by code_simp

lemma ToUpper_US: "ToUpper pf ''US'' = ''US''"
  by code_simp

lemma ToUpper_DE: "ToUpper pf ''DE'' = ''DE''"
  by code_simp

lemma dec_int_24: "dec_int 24 = ''24''"
  by code_simp

lemma mask_256:
  assumes "IntSize pf = 32 \<or> IntSize pf = 64"
  shows "cidr_mask pf 256 = 24"
  using assms by (auto simp: cidr_mask_def Log2_int_def ilog2.simps wrap_int_def)

lemma accepted_feed_us:
  assumes "IntSize pf = 32 \<or> IntSize pf = 64"
  shows "accepted_record pf feed_us =
    Some \<lparr>Country = ''US'', IPStart = ''192.168.0.0'', Count = 256, CIDRMask = 24\<rparr>"
proof -
  have "\<not> HasPrefix_hash feed_us" "\<not> TrimSpace_empty feed_us"
    by (simp_all add: feed_us_def HasPrefix_hash_def TrimSpace_empty_def byte_def)
  then show ?thesis
    by (simp add: accepted_record_def Split_feed_us Atoi_256 [OF assms] ToUpper_US
        mask_256 [OF assms])
qed

lemma lines_byCountry_feed_us:
  assumes "IntSize pf = 32 \<or> IntSize pf = 64"
  shows "lines_byCountry pf [feed_us] = [''US'' \<mapsto> [''192.168.0.0/24'']]"
  by (rule ext)
    (simp add: lines_byCountry_def List.map_filter_simps accepted_feed_us [OF assms] cidr_def
      dec_int_24)

lemma scan_feed_mixed: "snd (scan [] feed_mixed) = False"
  by (simp add: feed_mixed_def MaxScanTokenSize_def)

lemma spec_lines_feed_mixed:
  "spec_lines feed_mixed =
     [''# comment'',
      ''ripencc|de|ipv4|10.0.0.0|65536|20220101|allocated'' @ [CHR 0x0D],
      ''ripencc|FR|ipv4|192.168.0.0|256|20220101|allocated'',
      ''apnic|CN|ipv4|172.16.0.0|4096|20220101|allocated'',
      ''ripencc|DE|ipv4|10.1.0.0|notanint|20220101|allocated'',
      [],
      ''ripencc|DE|ipv4|172.16.0.0|1|20220101|allocated'']"
  by (simp add: feed_mixed_def spec_lines.simps)

lemma ToUpper_de: "ToUpper pf ''de'' = ''DE''"
  by code_simp

lemma ToUpper_FR: "ToUpper pf ''FR'' = ''FR''"
  by code_simp

lemma dec_int_16: "dec_int 16 = ''16''"
  by code_simp

lemma dec_int_32: "dec_int 32 = ''32''"
  by code_simp

lemma Atoi_examples:
  "Atoi platform64 ''65536'' = Some 65536" "Atoi platform64 ''256'' = Some 256"
  "Atoi platform64 ''1'' = Some 1" "Atoi platform64 ''notanint'' = None"
  by (simp_all add: Atoi_def platform64_def is_digit_def digits_value_def byte_def)

lemma spec_prefixLength_examples:
  "spec_prefixLength platform64 65536 = 16" "spec_prefixLength platform64 256 = 24"
  "spec_prefixLength platform64 1 = 32"
proof -
  have size: "IntSize platform64 = 32 \<or> IntSize platform64 = 64"
    by (simp add: platform64_def)
  show "spec_prefixLength platform64 65536 = 16"
    using Log2_int_power2 [of platform64 16] by (simp add: spec_prefixLength_def wrap_int_small [OF size])
  show "spec_prefixLength platform64 256 = 24"
    using Log2_int_power2 [of platform64 8] by (simp add: spec_prefixLength_def wrap_int_small [OF size])
  show "spec_prefixLength platform64 1 = 32"
    using Log2_int_power2 [of platform64 0] by (simp add: spec_prefixLength_def wrap_int_small [OF size])
qed

lemma spec_entries_feed_mixed:
  "List.map_filter (spec_entry platform64) (spec_lines feed_mixed) =
     [(''DE'', ''10.0.0.0/16''), (''FR'', ''192.168.0.0/24''), (''DE'', ''172.16.0.0/32'')]"
  by (simp add: spec_lines_feed_mixed List.map_filter_simps spec_entry_def spec_split.simps
      Atoi_examples spec_prefixLength_examples ToUpper_de ToUpper_FR ToUpper_DE
      dec_int_16 dec_int_24 dec_int_32)

lemma spec_byCountry_feed_mixed: "spec_byCountry platform64 feed_mixed = mixed_cache"
  by (rule ext) (simp add: spec_byCountry_def spec_entries_feed_mixed mixed_cache_def)

lemma stale_since_zero: "3600 * 1000000000 \<le> Since year2025 0"
  by (simp add: Since_def year2025_def maxDuration_def minDuration_def)

subsection \<open>The end-to-end scenario\<close>

text \<open>
  Claim C1. Starting from an empty cache that is stale, if the request is built and the
  transport returns status 200 with the body
  \<^verbatim>\<open>ripencc|US|ipv4|192.168.0.0|256|20220101|allocated\<close>, then the lookup of \<^verbatim>\<open>us\<close>
  returns exactly the list \<^verbatim>\<open>["192.168.0.0/24"]\<close> and no error; the cache then holds
  that list under \<^verbatim>\<open>US\<close>, and the transport was called once.
\<close>

theorem lookup_us_scenario:
  assumes "IntSize pf = 32 \<or> IntSize pf = 64"
    and "cache p = Map.empty"
    and "cacheTTL p \<le> Since (now_lock w) (cacheTime p)"
    and "new_request w = None"
    and "do_result w = Inr \<lparr>StatusCode = 200, Body = feed_us, BodyErr = None\<rparr>"
  shows "GetIPListForCountry pf w p ''us'' =
           (Inr [''192.168.0.0/24''],
            p\<lparr>cache := [''US'' \<mapsto> [''192.168.0.0/24'']], cacheTime := now_store w\<rparr>,
            \<lparr>do_calls = 1, body_read = True\<rparr>)"
  using assms(2-5)
  by (simp add: GetIPListForCountry_def downloadAndProcessData_def Let_def scanner_Err_def
      scan_feed_us to_cache_process_lines lines_byCountry_feed_us [OF assms(1)] ToUpper_us)

theorem lookup_us_scenario_witness:
  "GetIPListForCountry platform64 (world_at year2025 (reply 200 feed_us))
     (NewProcessorWithClient None) ''us'' =
   (Inr [''192.168.0.0/24''],
    \<lparr>cache = [''US'' \<mapsto> [''192.168.0.0/24'']], cacheTime = year2025,
     cacheTTL = 3600 * 1000000000\<rparr>,
    \<lparr>do_calls = 1, body_read = True\<rparr>)"
  using lookup_us_scenario [of platform64 "NewProcessorWithClient None"
      "world_at year2025 (reply 200 feed_us)"] stale_since_zero
  by (simp add: platform64_def NewProcessorWithClient_def world_at_def reply_def)

subsection \<open>A failed refresh changes nothing\<close>

text \<open>
  Claim C2. When the cache is stale and the refresh fails, because the request cannot be
  built, the transport returns an error, the status is not 200, or reading the body ends
  in an I/O error, then the refresh returns an error and leaves the processor (cache and
  timestamp) exactly as it was, and a lookup that reaches the refresh returns that error
  wrapped, with the processor unchanged as well.
\<close>

theorem refresh_failure_atomic:
  assumes stale: "cacheTTL p \<le> Since (now_lock w) (cacheTime p)"
    and miss: "Since (now_rlock w) (cacheTime p) < cacheTTL p
                 \<longrightarrow> cache p (ToUpper pf cc) = None"
    and failure: "new_request w \<noteq> None \<or> (\<exists>cause. do_result w = Inl cause)
        \<or> (\<exists>resp. do_result w = Inr resp \<and> (StatusCode resp \<noteq> 200 \<or> BodyErr resp \<noteq> None))"
  shows "\<exists>e fx. downloadAndProcessData pf w p = (Some e, p, fx)
           \<and> GetIPListForCountry pf w p cc = (Inl (ProcessFailed e), p, fx)
           \<and> Error (ProcessFailed e) = ''failed to download and process data: '' @ Error e"
proof -
  obtain r p' fx where r: "downloadAndProcessData pf w p = (r, p', fx)"
    by (cases "downloadAndProcessData pf w p") auto
  have "r \<noteq> None"
    using r stale failure
    by (auto simp: downloadAndProcessData_def scanner_Err_def Let_def
        split: if_splits option.splits sum.splits)
  then obtain e where e: "r = Some e" by auto
  with r have p': "p' = p" by (simp add: refresh_error_keeps)
  have "GetIPListForCountry pf w p cc = (Inl (ProcessFailed e), p, fx)"
    using lookup_after_refresh [OF miss] r e p' by simp
  with r e p' show ?thesis by simp
qed

theorem refresh_failure_atomic_witness:
  "downloadAndProcessData platform64 (world_at year2025 read_error_reply) stale_processor =
     (Some (ReadFailed ''read error''), stale_processor, \<lparr>do_calls = 1, body_read = True\<rparr>)
   \<and> GetIPListForCountry platform64 (world_at year2025 read_error_reply) stale_processor ''us'' =
     (Inl (ProcessFailed (ReadFailed ''read error'')), stale_processor,
      \<lparr>do_calls = 1, body_read = True\<rparr>)"
proof -
  let ?w = "world_at year2025 read_error_reply"
  have stale: "cacheTTL stale_processor \<le> Since (now_lock ?w) (cacheTime stale_processor)"
    using stale_since_zero by (simp add: stale_processor_def warm_processor_def world_at_def)
  then have miss: "Since (now_rlock ?w) (cacheTime stale_processor) < cacheTTL stale_processor
      \<longrightarrow> cache stale_processor (ToUpper platform64 ''us'') = None"
    by (simp add: world_at_def)
  have failure: "new_request ?w \<noteq> None \<or> (\<exists>cause. do_result ?w = Inl cause)
      \<or> (\<exists>resp. do_result ?w = Inr resp \<and> (StatusCode resp \<noteq> 200 \<or> BodyErr resp \<noteq> None))"
    by (simp add: world_at_def read_error_reply_def)
  have refresh: "downloadAndProcessData platform64 ?w stale_processor =
      (Some (ReadFailed ''read error''), stale_processor, \<lparr>do_calls = 1, body_read = True\<rparr>)"
    using stale
    by (simp add: downloadAndProcessData_def world_at_def read_error_reply_def scanner_Err_def
        scan_feed_us)
  show ?thesis
    using refresh_failure_atomic [OF stale miss failure] refresh by auto
qed

subsection \<open>A fresh cache is answered without the network\<close>

text \<open>
  Claim C3. While the cache is fresh at the clock reading that decides
  (\<open>now - cacheTime < TTL\<close>), a lookup calls the transport zero times and leaves the
  processor unchanged: a country present in the cache is answered with its stored list
  on the fast path, and a refresh invoked in this state returns success at once, by the
  staleness check after the lock, without fetching; the lookup then answers from the
  unchanged cache.
\<close>

theorem fresh_lookup_no_network:
  "(Since (now_rlock w) (cacheTime p) < cacheTTL p \<and> cache p (ToUpper pf cc) = Some ipList
      \<longrightarrow> GetIPListForCountry pf w p cc =
            (Inr ipList, p, \<lparr>do_calls = 0, body_read = False\<rparr>))
   \<and> (Since (now_lock w) (cacheTime p) < cacheTTL p
      \<longrightarrow> downloadAndProcessData pf w p = (None, p, \<lparr>do_calls = 0, body_read = False\<rparr>)
        \<and> GetIPListForCountry pf w p cc =
            (Inr (case cache p (ToUpper pf cc) of Some l \<Rightarrow> l | None \<Rightarrow> []), p,
             \<lparr>do_calls = 0, body_read = False\<rparr>))"
  by (auto simp: GetIPListForCountry_def Let_def refresh_fresh no_effects_def
      split: option.splits)

theorem fresh_lookup_no_network_witness:
  "Since year2025 (cacheTime warm_processor) < cacheTTL warm_processor
   \<and> GetIPListForCountry platform64 (world_at year2025 (reply 200 feed_us)) warm_processor ''us'' =
       (Inr [''1.1.1.0/24''], warm_processor, \<lparr>do_calls = 0, body_read = False\<rparr>)
   \<and> downloadAndProcessData platform64 (world_at year2025 (reply 200 feed_us)) warm_processor =
       (None, warm_processor, \<lparr>do_calls = 0, body_read = False\<rparr>)
   \<and> GetIPListForCountry platform64 (world_at year2025 (reply 200 feed_us)) warm_processor ''DE'' =
       (Inr [], warm_processor, \<lparr>do_calls = 0, body_read = False\<rparr>)"
proof -
  let ?w = "world_at year2025 (reply 200 feed_us)"
  have fresh: "Since year2025 (cacheTime warm_processor) < cacheTTL warm_processor"
    by (simp add: warm_processor_def Since_def maxDuration_def minDuration_def year2025_def)
  have us: "cache warm_processor (ToUpper platform64 ''us'') = Some [''1.1.1.0/24'']"
    by (simp add: ToUpper_us warm_processor_def)
  have de: "cache warm_processor (ToUpper platform64 ''DE'') = None"
    by (simp add: ToUpper_DE warm_processor_def)
  show ?thesis
    using fresh us de
      fresh_lookup_no_network [of ?w warm_processor platform64 "''us''" "[''1.1.1.0/24'']"]
      fresh_lookup_no_network [of ?w warm_processor platform64 "''DE''" "[]"]
    by (simp add: world_at_def)
qed

subsection \<open>A country without allocations\<close>

text \<open>
  Claim C7. A lookup of a country code that has no entry in the current snapshot returns
  the empty list and no error: when the cache is fresh, and when the lookup triggers a
  refresh that succeeds and the new snapshot has no entry for the country.
\<close>

theorem unknown_country_empty:
  "(Since (now_lock w) (cacheTime p) < cacheTTL p \<and> cache p (ToUpper pf cc) = None
      \<longrightarrow> GetIPListForCountry pf w p cc = (Inr [], p, \<lparr>do_calls = 0, body_read = False\<rparr>))
   \<and> ((Since (now_rlock w) (cacheTime p) < cacheTTL p \<longrightarrow> cache p (ToUpper pf cc) = None)
        \<and> downloadAndProcessData pf w p = (None, p', fx) \<and> cache p' (ToUpper pf cc) = None
      \<longrightarrow> GetIPListForCountry pf w p cc = (Inr [], p', fx))"
proof (intro conjI impI)
  assume a: "Since (now_lock w) (cacheTime p) < cacheTTL p \<and> cache p (ToUpper pf cc) = None"
  then have "Since (now_rlock w) (cacheTime p) < cacheTTL p \<longrightarrow> cache p (ToUpper pf cc) = None"
    by simp
  from lookup_after_refresh [OF this] a
  show "GetIPListForCountry pf w p cc = (Inr [], p, \<lparr>do_calls = 0, body_read = False\<rparr>)"
    by (simp add: refresh_fresh)
next
  assume a: "(Since (now_rlock w) (cacheTime p) < cacheTTL p \<longrightarrow> cache p (ToUpper pf cc) = None)
        \<and> downloadAndProcessData pf w p = (None, p', fx) \<and> cache p' (ToUpper pf cc) = None"
  then have "Since (now_rlock w) (cacheTime p) < cacheTTL p \<longrightarrow> cache p (ToUpper pf cc) = None"
    by simp
  from lookup_after_refresh [OF this] a
  show "GetIPListForCountry pf w p cc = (Inr [], p', fx)"
    by simp
qed

theorem unknown_country_empty_witness:
  "GetIPListForCountry platform64 (world_at year2025 (reply 200 feed_us)) warm_processor ''DE'' =
     (Inr [], warm_processor, \<lparr>do_calls = 0, body_read = False\<rparr>)
   \<and> GetIPListForCountry platform64 (world_at year2025 (reply 200 feed_us)) stale_processor ''DE'' =
     (Inr [], \<lparr>cache = [''US'' \<mapsto> [''192.168.0.0/24'']], cacheTime = year2025,
               cacheTTL = 3600 * 1000000000\<rparr>,
      \<lparr>do_calls = 1, body_read = True\<rparr>)"
proof -
  let ?w = "world_at year2025 (reply 200 feed_us)"
  let ?p' = "\<lparr>cache = [''US'' \<mapsto> [''192.168.0.0/24'']], cacheTime = year2025,
               cacheTTL = 3600 * 1000000000\<rparr>"
  let ?fx = "\<lparr>do_calls = 1, body_read = True\<rparr>"
  have fresh: "Since (now_lock ?w) (cacheTime warm_processor) < cacheTTL warm_processor"
    by (simp add: warm_processor_def Since_def maxDuration_def minDuration_def year2025_def
        world_at_def)
  have de: "cache warm_processor (ToUpper platform64 ''DE'') = None"
    by (simp add: ToUpper_DE warm_processor_def)
  have stale: "cacheTTL stale_processor \<le> Since (now_lock ?w) (cacheTime stale_processor)"
    using stale_since_zero by (simp add: stale_processor_def warm_processor_def world_at_def)
  then have miss: "Since (now_rlock ?w) (cacheTime stale_processor) < cacheTTL stale_processor
      \<longrightarrow> cache stale_processor (ToUpper platform64 ''DE'') = None"
    by (simp add: world_at_def)
  have refresh: "downloadAndProcessData platform64 ?w stale_processor = (None, ?p', ?fx)"
    using stale
    by (simp add: downloadAndProcessData_def world_at_def reply_def scanner_Err_def
        scan_feed_us to_cache_process_lines lines_byCountry_feed_us platform64_def
        stale_processor_def warm_processor_def)
  have de': "cache ?p' (ToUpper platform64 ''DE'') = None"
    by (simp add: ToUpper_DE)
  show ?thesis
    using unknown_country_empty [of ?w warm_processor platform64 "''DE''" warm_processor ?fx]
      unknown_country_empty [of ?w stale_processor platform64 "''DE''" ?p' ?fx]
      fresh de miss refresh de'
    by simp
qed

subsection \<open>The count field\<close>

text \<open>
  Claim C4, as stated: a line whose fifth field does not parse as a positive integer,
  zero and negative integers included, produces no record. The code tests only whether
  \<^verbatim>\<open>strconv.Atoi\<close> returned an error: the lines with the counts \<^verbatim>\<open>0\<close> and \<^verbatim>\<open>-256\<close> parse,
  and each puts a record into the map.
\<close>

theorem count_must_be_positive_counterexample:
  "Atoi platform64 (Split feed_zero ! 4) = Some 0
   \<and> map_option (map Count) (process_lines platform64 [feed_zero] ''DE'') = Some [0]
   \<and> Atoi platform64 (Split feed_negative ! 4) = Some (- 256)
   \<and> map_option (map Count) (process_lines platform64 [feed_negative] ''DE'') = Some [- 256]"
proof -
  have z: "Atoi platform64 ''0'' = Some 0"
    by (simp add: Atoi_def platform64_def is_digit_def digits_value_def byte_def)
  have n: "Atoi platform64 ''-256'' = Some (- 256)"
    by (simp add: Atoi_def platform64_def is_digit_def digits_value_def byte_def)
  have sz: "Split feed_zero =
      [''ripencc'', ''DE'', ''ipv4'', ''10.0.0.0'', ''0'', ''20220101'', ''allocated'']"
    by (simp add: feed_zero_def)
  have sn: "Split feed_negative =
      [''ripencc'', ''DE'', ''ipv4'', ''10.0.0.0'', ''-256'', ''20220101'', ''allocated'']"
    by (simp add: feed_negative_def)
  have hz: "\<not> HasPrefix_hash feed_zero" "\<not> TrimSpace_empty feed_zero"
    by (simp_all add: feed_zero_def HasPrefix_hash_def TrimSpace_empty_def byte_def)
  have hn: "\<not> HasPrefix_hash feed_negative" "\<not> TrimSpace_empty feed_negative"
    by (simp_all add: feed_negative_def HasPrefix_hash_def TrimSpace_empty_def byte_def)
  have "map_option (map Count) (process_lines platform64 [feed_zero] ''DE'') = Some [0]"
    using hz by (simp add: process_lines_def process_line_def Let_def sz z ToUpper_DE)
  moreover
  have "map_option (map Count) (process_lines platform64 [feed_negative] ''DE'') = Some [- 256]"
    using hn by (simp add: process_lines_def process_line_def Let_def sn n ToUpper_DE)
  ultimately show ?thesis
    by (simp add: sz sn z n)
qed

text \<open>
  Claim C4, amended: a line whose fifth field does not parse as an integer
  (\<^verbatim>\<open>strconv.Atoi\<close> returns an error) produces no record: the map is as it was before the
  line, and the lines after it are parsed as if the line were not there.
\<close>

theorem unparsable_count_skipped:
  assumes "Atoi pf (Split line ! 4) = None"
  shows "process_line pf m line = m
         \<and> process_lines pf (xs @ line # ys) = process_lines pf (xs @ ys)"
proof -
  have skip: "process_line pf m' line = m'" for m'
    using assms by (simp add: process_line_def Let_def)
  show ?thesis using skip by (simp add: process_lines_skip)
qed

theorem unparsable_count_skipped_witness:
  "Atoi platform64 (Split feed_notanint ! 4) = None
   \<and> process_lines platform64 ([] @ feed_notanint # [feed_us]) ''US'' =
       process_lines platform64 ([] @ [feed_us]) ''US''
   \<and> process_lines platform64 ([] @ feed_notanint # [feed_us]) ''DE'' = None"
proof -
  have s: "Split feed_notanint =
      [''ripencc'', ''DE'', ''ipv4'', ''10.0.0.0'', ''notanint'', ''20220101'', ''allocated'']"
    by (simp add: feed_notanint_def)
  have a: "Atoi platform64 (Split feed_notanint ! 4) = None"
    by (simp add: s Atoi_def is_digit_def byte_def)
  have us: "process_lines platform64 [feed_us] ''DE'' = None"
    by (simp add: process_lines_def process_line_record accepted_feed_us platform64_def)
  show ?thesis
    using unparsable_count_skipped [OF a, of Map.empty "[]" "[feed_us]"] a us by simp
qed

subsection \<open>The prefix length of a power of two\<close>

text \<open>
  Claim C5. For a count \<open>2^k\<close> with \<open>0 \<le> k \<le> 32\<close> the derived prefix length
  \<^verbatim>\<open>32 - int(math.Log2(float64(count)))\<close> is exactly \<open>32 - k\<close>; in particular the counts
  1, 2, 256 and 65536 give 32, 31, 24 and 16.
\<close>

theorem prefix_length_power_of_two:
  assumes "IntSize pf = 32 \<or> IntSize pf = 64" and "k \<le> 32"
  shows "cidr_mask pf (2 ^ k) = 32 - int k
         \<and> (accepted_record pf line = Some d \<and> Count d = 2 ^ k \<longrightarrow> CIDRMask d = 32 - int k)"
proof -
  have mask: "cidr_mask pf (2 ^ k) = 32 - int k"
    using assms by (simp add: cidr_mask_def Log2_int_power2 wrap_int_small)
  have "CIDRMask d = cidr_mask pf (Count d)" if "accepted_record pf line = Some d"
    using that by (auto simp: accepted_record_def split: if_splits option.splits)
  with mask show ?thesis by auto
qed

theorem prefix_length_power_of_two_witness:
  "cidr_mask platform64 1 = 32 \<and> cidr_mask platform64 2 = 31
   \<and> cidr_mask platform64 256 = 24 \<and> cidr_mask platform64 65536 = 16
   \<and> map_option CIDRMask (accepted_record platform64 feed_us) = Some 24"
proof -
  have size: "IntSize platform64 = 32 \<or> IntSize platform64 = 64"
    by (simp add: platform64_def)
  show ?thesis
    using prefix_length_power_of_two [OF size, of 0] prefix_length_power_of_two [OF size, of 1]
      prefix_length_power_of_two [OF size, of 8 feed_us
        "\<lparr>Country = ''US'', IPStart = ''192.168.0.0'', Count = 256, CIDRMask = 24\<rparr>"]
      prefix_length_power_of_two [OF size, of 16] accepted_feed_us [OF size]
    by simp
qed

subsection \<open>The registry and family filter\<close>

text \<open>
  Claim C6. A line that starts with \<^verbatim>\<open>#\<close>, or is white space only, or splits into fewer
  than 6 fields, or whose first field is not \<^verbatim>\<open>ripencc\<close>, or whose third field is not
  \<^verbatim>\<open>ipv4\<close>, contributes no record, whatever its other fields are: the map is as it was
  before the line, and the parsed mapping of a feed is the same with and without the line.
\<close>

theorem registry_family_filter:
  assumes "HasPrefix_hash line \<or> TrimSpace_empty line \<or> length (Split line) < 6
           \<or> Split line ! 0 \<noteq> ''ripencc'' \<or> Split line ! 2 \<noteq> ''ipv4''"
  shows "process_line pf m line = m
         \<and> process_lines pf (xs @ line # ys) = process_lines pf (xs @ ys)"
proof -
  have skip: "process_line pf m' line = m'" for m'
    using assms by (auto simp: process_line_def Let_def)
  show ?thesis using skip by (simp add: process_lines_skip)
qed

theorem registry_family_filter_witness:
  "Split feed_apnic ! 0 \<noteq> ''ripencc''
   \<and> process_lines platform64 ([feed_us] @ feed_apnic # []) =
       process_lines platform64 ([feed_us] @ [])"
proof -
  have a: "Split feed_apnic ! 0 \<noteq> ''ripencc''"
    by (simp add: feed_apnic_def)
  then show ?thesis
    using registry_family_filter [of feed_apnic platform64 Map.empty "[feed_us]" "[]"] by simp
qed

subsection \<open>A successful refresh replaces the whole cache\<close>

text \<open>
  Claim C8. After a refresh that fetched and succeeded, the cache is exactly the mapping
  derived from the fetched feed alone, whatever the cache held before: each country's
  list is the CIDR strings \<open>startAddress/prefixLength\<close> of the accepted lines of that
  country, one per line, in feed order, and a country without an accepted line has no
  entry. The right-hand side is the specification's \<open>byCountry\<close> of the bytes of the
  body; it mentions neither the old cache nor a definition of the code's model. The
  timestamp is the clock reading at the store, and the TTL is kept.
\<close>

theorem refresh_replaces_wholesale:
  assumes "cacheTTL p \<le> Since (now_lock w) (cacheTime p)"
    and "downloadAndProcessData pf w p = (None, p', fx)"
  shows "cache p' = spec_byCountry pf (fetched_body w)
         \<and> cacheTime p' = now_store w \<and> cacheTTL p' = cacheTTL p"
proof -
  from assms obtain resp where resp: "do_result w = Inr resp"
    and ok: "scanner_Err resp = None"
    and p': "p' = p\<lparr>cache := to_cache (process_lines pf (fst (scan [] (Body resp)))),
                    cacheTime := now_store w\<rparr>"
    by (auto simp: downloadAndProcessData_def Let_def
        split: if_splits option.splits sum.splits)
  from ok have "snd (scan [] (Body resp)) = False"
    by (auto simp: scanner_Err_def split: if_splits)
  then have "scan [] (Body resp) = (fst (scan [] (Body resp)), False)"
    by (metis prod.collapse)
  then have "fst (scan [] (Body resp)) = map dropCR (spec_lines ([] @ Body resp))"
    by (intro scan_spec_lines) simp_all
  then show ?thesis
    using resp p' by (simp add: to_cache_process_lines lines_byCountry_spec fetched_body_def)
qed

theorem refresh_replaces_wholesale_witness:
  "cache stale_processor ''US'' = Some [''1.1.1.0/24'']
   \<and> downloadAndProcessData platform64 (world_at year2025 (reply 200 feed_mixed)) stale_processor =
     (None,
      \<lparr>cache = [''DE'' \<mapsto> [''10.0.0.0/16'', ''172.16.0.0/32''], ''FR'' \<mapsto> [''192.168.0.0/24'']],
       cacheTime = year2025, cacheTTL = 3600 * 1000000000\<rparr>,
      \<lparr>do_calls = 1, body_read = True\<rparr>)"
proof -
  let ?w = "world_at year2025 (reply 200 feed_mixed)"
  let ?p' = "stale_processor\<lparr>cache := to_cache (process_lines platform64 (fst (scan [] feed_mixed))),
                             cacheTime := year2025\<rparr>"
  have stale: "cacheTTL stale_processor \<le> Since (now_lock ?w) (cacheTime stale_processor)"
    using stale_since_zero by (simp add: stale_processor_def warm_processor_def world_at_def)
  have refresh: "downloadAndProcessData platform64 ?w stale_processor =
      (None, ?p', \<lparr>do_calls = 1, body_read = True\<rparr>)"
    using stale
    by (simp add: downloadAndProcessData_def world_at_def reply_def scanner_Err_def
        scan_feed_mixed)
  have body: "fetched_body ?w = feed_mixed"
    by (simp add: fetched_body_def world_at_def reply_def)
  have "cache ?p' = mixed_cache"
    using refresh_replaces_wholesale [OF stale refresh] by (simp only: body spec_byCountry_feed_mixed)
  then have "to_cache (process_lines platform64 (fst (scan [] feed_mixed))) = mixed_cache"
    by simp
  then show ?thesis
    using refresh by (simp add: stale_processor_def warm_processor_def mixed_cache_def)
qed

subsection \<open>The timestamp\<close>

text \<open>
  Claim C9, as stated: the timestamp strictly increases across successful refreshes.
  With a TTL of zero every refresh fetches, and two refreshes that read the same instant
  from the clock record the same timestamp.
\<close>

theorem timestamp_strictly_increases_counterexample:
  "downloadAndProcessData platform64 (world_at year2025 (reply 200 feed_us)) zero_ttl_processor =
     (None, zero_ttl_refreshed, \<lparr>do_calls = 1, body_read = True\<rparr>)
   \<and> downloadAndProcessData platform64 (world_at year2025 (reply 200 feed_us)) zero_ttl_refreshed =
     (None, zero_ttl_refreshed, \<lparr>do_calls = 1, body_read = True\<rparr>)
   \<and> \<not> cacheTime zero_ttl_refreshed < cacheTime zero_ttl_refreshed"
proof -
  have s1: "\<not> Since year2025 0 < 0"
    by (simp add: Since_def year2025_def maxDuration_def minDuration_def)
  have s2: "\<not> Since year2025 year2025 < 0"
    by (simp add: Since_def maxDuration_def minDuration_def)
  have size: "IntSize platform64 = 32 \<or> IntSize platform64 = 64"
    by (simp add: platform64_def)
  show ?thesis
    using s1 s2
    by (simp add: downloadAndProcessData_def world_at_def reply_def zero_ttl_processor_def
        zero_ttl_refreshed_def scanner_Err_def scan_feed_us to_cache_process_lines
        lines_byCountry_feed_us [OF size])
qed

text \<open>
  Claim C9, amended: when the TTL is positive and the clock does not run backwards
  between the staleness check and the store, a successful refresh that fetched records a
  timestamp strictly greater than the one it replaces; a failed refresh leaves the
  timestamp unchanged.
\<close>

theorem timestamp_increases_positive_ttl:
  assumes "0 < cacheTTL p" and "now_lock w \<le> now_store w"
    and "downloadAndProcessData pf w p = (r, p', fx)"
  shows "(r = None \<and> do_calls fx = 1 \<longrightarrow> cacheTime p < cacheTime p')
       \<and> (r \<noteq> None \<longrightarrow> cacheTime p' = cacheTime p)"
proof -
  have pos: "cacheTime p < now_lock w" if "cacheTTL p \<le> Since (now_lock w) (cacheTime p)"
    using that assms(1) by (auto simp: Since_def maxDuration_def minDuration_def split: if_splits)
  show ?thesis
    using assms pos
    by (auto simp: downloadAndProcessData_def Let_def no_effects_def
        split: if_splits option.splits sum.splits)
qed

theorem timestamp_increases_positive_ttl_witness:
  "downloadAndProcessData platform64 (world_at year2025 (reply 200 feed_us)) stale_processor =
     (None, \<lparr>cache = [''US'' \<mapsto> [''192.168.0.0/24'']], cacheTime = year2025,
             cacheTTL = 3600 * 1000000000\<rparr>,
      \<lparr>do_calls = 1, body_read = True\<rparr>)
   \<and> cacheTime stale_processor < year2025
   \<and> cacheTime (fst (snd (downloadAndProcessData platform64
        (world_at year2025 read_error_reply) stale_processor))) = cacheTime stale_processor"
proof -
  let ?w = "world_at year2025 (reply 200 feed_us)"
  let ?we = "world_at year2025 read_error_reply"
  let ?p' = "\<lparr>cache = [''US'' \<mapsto> [''192.168.0.0/24'']], cacheTime = year2025,
               cacheTTL = 3600 * 1000000000\<rparr>"
  let ?fx = "\<lparr>do_calls = 1, body_read = True\<rparr>"
  have ttl: "0 < cacheTTL stale_processor"
    by (simp add: stale_processor_def warm_processor_def)
  have clock: "now_lock ?w \<le> now_store ?w" "now_lock ?we \<le> now_store ?we"
    by (simp_all add: world_at_def)
  have stale: "cacheTTL stale_processor \<le> Since (now_lock ?w) (cacheTime stale_processor)"
    using stale_since_zero by (simp add: stale_processor_def warm_processor_def world_at_def)
  have refresh: "downloadAndProcessData platform64 ?w stale_processor = (None, ?p', ?fx)"
    using stale
    by (simp add: downloadAndProcessData_def world_at_def reply_def scanner_Err_def
        scan_feed_us to_cache_process_lines lines_byCountry_feed_us platform64_def
        stale_processor_def warm_processor_def)
  have failed: "downloadAndProcessData platform64 ?we stale_processor =
      (Some (ReadFailed ''read error''), stale_processor, ?fx)"
    using stale
    by (simp add: downloadAndProcessData_def world_at_def read_error_reply_def scanner_Err_def
        scan_feed_us)
  show ?thesis
    using timestamp_increases_positive_ttl [OF ttl clock(1) refresh]
      timestamp_increases_positive_ttl [OF ttl clock(2) failed] refresh failed
    by simp
qed

subsection \<open>The status check\<close>

text \<open>
  Claim C10. The status is compared with 200 itself: for every response whose status is
  not exactly 200, the success statuses 201 and 204 included, a refresh of a stale
  cache fails with the error \<^verbatim>\<open>received non-200 response: <status>\<close>, the body is not
  read, and the processor is unchanged.
\<close>

theorem status_exactly_200:
  assumes "cacheTTL p \<le> Since (now_lock w) (cacheTime p)"
    and "new_request w = None"
    and "do_result w = Inr resp"
    and "StatusCode resp \<noteq> 200"
  shows "downloadAndProcessData pf w p =
           (Some (Non200 (StatusCode resp)), p, \<lparr>do_calls = 1, body_read = False\<rparr>)
         \<and> Error (Non200 (StatusCode resp)) =
             ''received non-200 response: '' @ dec_int (StatusCode resp)"
  using assms by (simp add: downloadAndProcessData_def)

theorem status_exactly_200_witness:
  "downloadAndProcessData platform64 (world_at year2025 (reply 204 feed_us)) stale_processor =
     (Some (Non200 204), stale_processor, \<lparr>do_calls = 1, body_read = False\<rparr>)
   \<and> Error (Non200 204) = ''received non-200 response: 204''"
proof -
  let ?w = "world_at year2025 (reply 204 feed_us)"
  have stale: "cacheTTL stale_processor \<le> Since (now_lock ?w) (cacheTime stale_processor)"
    using stale_since_zero by (simp add: stale_processor_def warm_processor_def world_at_def)
  have d: "dec_int 204 = ''204''"
    by code_simp
  show ?thesis
    using status_exactly_200 [OF stale, of "\<lparr>StatusCode = 204, Body = feed_us, BodyErr = None\<rparr>"
        platform64] d
    by (simp add: world_at_def reply_def)
qed

end
